theory Spec2Isabelle
  imports Complex_Main "HOL-Library.Multiset"
begin

section \<open>The Jeopardy board: data model\<close>

text \<open>
  The page script \<^verbatim>\<open>jeopardy.js\<close> keeps one global array \<^verbatim>\<open>categories\<close>; each
  category has a title and an array of clues, each clue a question, an answer and the
  field \<^verbatim>\<open>showing\<close>, which is \<^verbatim>\<open>null\<close>, \<^verbatim>\<open>"question"\<close> or \<^verbatim>\<open>"answer"\<close>.
\<close>

datatype showing = Showing_null | Showing_question | Showing_answer

record clue =
  question :: string
  answer :: string
  showing :: showing

record category =
  title :: string
  clues :: "clue list"

definition NUM_CATEGORIES :: nat where
  "NUM_CATEGORIES = 6"

definition NUM_QUESTIONS_PER_CAT :: nat where
  "NUM_QUESTIONS_PER_CAT = 5"

text \<open>
  What the script throws: the error of a rejected \<^verbatim>\<open>axios.get\<close> (with the status code
  it carries, 0 for a transport failure), an \<^verbatim>\<open>Error\<close> with its message, and the
  \<^verbatim>\<open>TypeError\<close> of reading a property of \<^verbatim>\<open>undefined\<close>.
\<close>

datatype error = AxiosError nat | Error string | TypeError

subsection \<open>The page\<close>

text \<open>
  The element \<^verbatim>\<open>#jeopardy\<close> holds the rendered grid: the rows of the \<^verbatim>\<open><thead>\<close>
  and the rows of the \<^verbatim>\<open><tbody>\<close>, every cell with its text and its list of CSS
  classes. The page state is the global \<^verbatim>\<open>categories\<close>, that grid, whether
  \<^verbatim>\<open>#jeopardy\<close> and \<^verbatim>\<open>#loading\<close> are displayed, and what went to \<^verbatim>\<open>alert\<close> and
  to \<^verbatim>\<open>console.error\<close>.
\<close>

record cell =
  cell_text :: string
  cell_classes :: "string list"

record grid =
  thead :: "cell list list"
  tbody :: "cell list list"

record page =
  categories :: "category list"
  jeopardy :: grid
  jeopardy_visible :: bool
  loading_visible :: bool
  alerts :: "string list"
  console :: "error list"

text \<open>jQuery's \<^verbatim>\<open>$("<th>")\<close>, \<^verbatim>\<open>.text(s)\<close>, \<^verbatim>\<open>.addClass(c)\<close> and \<^verbatim>\<open>.removeClass(c)\<close> on one cell.\<close>

definition new_cell :: cell where
  "new_cell = \<lparr>cell_text = [], cell_classes = []\<rparr>"

definition set_text :: "string \<Rightarrow> cell \<Rightarrow> cell" where
  "set_text s c = c\<lparr>cell_text := s\<rparr>"

definition addClass :: "string \<Rightarrow> cell \<Rightarrow> cell" where
  "addClass k c =
     (if k \<in> set (cell_classes c) then c else c\<lparr>cell_classes := cell_classes c @ [k]\<rparr>)"

definition removeClass :: "string \<Rightarrow> cell \<Rightarrow> cell" where
  "removeClass k c = c\<lparr>cell_classes := filter (\<lambda>x. x \<noteq> k) (cell_classes c)\<rparr>"

text \<open>
  The body cell in row \<open>r\<close>, column \<open>c\<close>, and an update of that cell alone. A click
  event comes from a cell that exists; for a position outside the grid the update
  changes nothing.
\<close>

definition body_cell :: "grid \<Rightarrow> nat \<Rightarrow> nat \<Rightarrow> cell" where
  "body_cell g r c = tbody g ! r ! c"

definition update_body_cell :: "(cell \<Rightarrow> cell) \<Rightarrow> nat \<Rightarrow> nat \<Rightarrow> grid \<Rightarrow> grid" where
  "update_body_cell f r c g =
     (if r < length (tbody g) \<and> c < length (tbody g ! r)
      then g\<lparr>tbody := (tbody g)[r := (tbody g ! r)[c := f (tbody g ! r ! c)]]\<rparr>
      else g)"

text \<open>The assignment \<^verbatim>\<open>clue.showing = v\<close> on the clue object \<^verbatim>\<open>categories[c].clues[r]\<close>.\<close>

definition set_showing :: "showing \<Rightarrow> nat \<Rightarrow> nat \<Rightarrow> category list \<Rightarrow> category list" where
  "set_showing v r c cats =
     cats[c := (cats ! c)\<lparr>clues := (clues (cats ! c))[r := (clues (cats ! c) ! r)\<lparr>showing := v\<rparr>]\<rparr>]"

section \<open>fillTable\<close>

text \<open>
  \<^verbatim>\<open>fillTable\<close> empties \<^verbatim>\<open>#jeopardy\<close>, appends a \<^verbatim>\<open><thead>\<close> of one row with a
  \<^verbatim>\<open><th>\<close> per category carrying its title, then a \<^verbatim>\<open><tbody>\<close> of
  \<^verbatim>\<open>NUM_QUESTIONS_PER_CAT\<close> rows, each with one \<^verbatim>\<open><td>\<close> per category carrying "?".
\<close>

definition empty_grid :: grid where
  "empty_grid = \<lparr>thead = [], tbody = []\<rparr>"

definition append_thead :: "cell list list \<Rightarrow> grid \<Rightarrow> grid" where
  "append_thead rows g = g\<lparr>thead := thead g @ rows\<rparr>"

definition append_tbody :: "cell list list \<Rightarrow> grid \<Rightarrow> grid" where
  "append_tbody rows g = g\<lparr>tbody := tbody g @ rows\<rparr>"

definition headerRow :: "category list \<Rightarrow> cell list" where
  "headerRow cats = map (\<lambda>cat. set_text (title cat) new_cell) cats"

definition bodyRow :: "category list \<Rightarrow> cell list" where
  "bodyRow cats = map (\<lambda>cat. set_text ''?'' new_cell) cats"

definition fillTable :: "page \<Rightarrow> page" where
  "fillTable s =
     s\<lparr>jeopardy :=
         append_tbody (replicate NUM_QUESTIONS_PER_CAT (bodyRow (categories s)))
           (append_thead [headerRow (categories s)] empty_grid)\<rparr>"

section \<open>handleClick\<close>

text \<open>
  The event comes from the body cell in row \<open>rowIndex\<close> (\<^verbatim>\<open>$row.index()\<close>) and column
  \<open>colIndex\<close> (\<^verbatim>\<open>$cell.index()\<close>). \<^verbatim>\<open>categories[colIndex]\<close> past the end of the array
  is \<^verbatim>\<open>undefined\<close>, and reading \<^verbatim>\<open>.clues\<close> of it throws; so does reading
  \<^verbatim>\<open>.showing\<close> of a clue past the end of \<^verbatim>\<open>category.clues\<close>. Both happen before
  anything is changed.
\<close>

definition handleClick :: "page \<Rightarrow> nat \<Rightarrow> nat \<Rightarrow> error + page" where
  "handleClick s rowIndex colIndex =
     (if length (categories s) \<le> colIndex then Inl TypeError
      else
        let category = categories s ! colIndex in
        if length (clues category) \<le> rowIndex then Inl TypeError
        else
          let clue = clues category ! rowIndex in
          (case showing clue of
             Showing_null \<Rightarrow>
               Inr (s\<lparr>jeopardy :=
                        update_body_cell
                          (\<lambda>cell. addClass ''question'' (set_text (question clue) cell))
                          rowIndex colIndex (jeopardy s),
                      categories :=
                        set_showing Showing_question rowIndex colIndex (categories s)\<rparr>)
           | Showing_question \<Rightarrow>
               Inr (s\<lparr>jeopardy :=
                        update_body_cell
                          (\<lambda>cell. addClass ''answer''
                             (removeClass ''question'' (set_text (answer clue) cell)))
                          rowIndex colIndex (jeopardy s),
                      categories :=
                        set_showing Showing_answer rowIndex colIndex (categories s)\<rparr>)
           | Showing_answer \<Rightarrow> Inr s))"

text \<open>The clue at a position of the board, and the order of the reveal states.\<close>

definition clue_at :: "category list \<Rightarrow> nat \<Rightarrow> nat \<Rightarrow> clue" where
  "clue_at cats r c = clues (cats ! c) ! r"

fun next_showing :: "showing \<Rightarrow> showing" where
  "next_showing Showing_null = Showing_question"
| "next_showing Showing_question = Showing_answer"
| "next_showing Showing_answer = Showing_answer"


section \<open>The remote service\<close>

text \<open>
  \<^verbatim>\<open>axios.get\<close> either rejects (a transport failure, or a status that axios itself
  refuses) or fulfils with a response that has a \<^verbatim>\<open>status\<close> and the decoded
  \<^verbatim>\<open>data\<close>. The category list is an array of records of which the script reads only
  \<^verbatim>\<open>id\<close>; a category's detail has a title and clues, of which it reads
  \<^verbatim>\<open>question\<close> and \<^verbatim>\<open>answer\<close>.
\<close>

record 'a response =
  status :: nat
  data :: 'a

record api_category =
  cat_id :: nat
  cat_title :: string

record api_clue =
  clue_id :: nat
  api_question :: string
  api_answer :: string

record category_data =
  data_title :: string
  data_clues :: "api_clue list"

subsection \<open>Sorting with a random comparator\<close>

text \<open>
  \<^verbatim>\<open>data.sort(() => Math.random() - 0.5)\<close> hands the engine's sort a comparator that
  ignores its arguments. The successive values of \<^verbatim>\<open>Math.random()\<close> are a stream:
  the call number \<open>n\<close> returns \<open>rnd n\<close>. ECMAScript leaves the sequence of comparator
  calls to the engine, and engines differ in it; what they share is that the result is
  a rearrangement of the array. The sort below is one such sort, insertion sort, which
  compares the element being placed with its left neighbours, nearest first, and moves
  it left while the comparator is positive; it stands for the engine's sort, and the
  identifiers it selects on a given stream are not those of any particular engine. The
  placed prefix is kept nearest-first, the counter is the number of
  \<^verbatim>\<open>Math.random()\<close> calls made so far.
\<close>

type_synonym random_source = "nat \<Rightarrow> real"

definition compare_random :: "real \<Rightarrow> real" where
  "compare_random r = r - 0.5"

fun insert_random :: "random_source \<Rightarrow> nat \<Rightarrow> 'a \<Rightarrow> 'a list \<Rightarrow> 'a list \<times> nat" where
  "insert_random rnd n x [] = ([x], n)"
| "insert_random rnd n x (y # ys) =
     (if 0 < compare_random (rnd n)
      then (case insert_random rnd (Suc n) x ys of (zs, n') \<Rightarrow> (y # zs, n'))
      else (x # y # ys, Suc n))"

fun sort_random_from :: "random_source \<Rightarrow> nat \<Rightarrow> 'a list \<Rightarrow> 'a list \<Rightarrow> 'a list" where
  "sort_random_from rnd n placed [] = rev placed"
| "sort_random_from rnd n placed (x # xs) =
     (case insert_random rnd n x placed of
        (placed', n') \<Rightarrow> sort_random_from rnd n' placed' xs)"

definition sort_random :: "random_source \<Rightarrow> 'a list \<Rightarrow> 'a list" where
  "sort_random rnd xs = sort_random_from rnd 0 [] xs"

subsection \<open>getCategoryIds and getCategory\<close>

definition getCategoryIds ::
  "random_source \<Rightarrow> error + api_category list response \<Rightarrow> error + nat list" where
  "getCategoryIds rnd got =
     (case got of
        Inl e \<Rightarrow> Inl e
      | Inr response \<Rightarrow>
          if status response \<noteq> 200 then Inl (Error ''Failed to fetch categories'')
          else
            let shuffledCategories = sort_random rnd (data response)
            in Inr (map cat_id (take NUM_CATEGORIES shuffledCategories)))"

text \<open>
  The decimal digits of a number, as the template literal \<^verbatim>\<open>${catId}\<close> writes an
  integer identifier (below \<open>10 ^ 21\<close>, from where JavaScript switches to exponent
  notation).
\<close>

definition digit :: "nat \<Rightarrow> char" where
  "digit d = char_of (d + 48)"

fun decimal :: "nat \<Rightarrow> string" where
  "decimal n = (if 10 \<le> n then decimal (n div 10) @ [digit (n mod 10)] else [digit n])"

declare decimal.simps [simp del]

definition getCategory :: "nat \<Rightarrow> error + category_data response \<Rightarrow> error + category" where
  "getCategory catId got =
     (case got of
        Inl e \<Rightarrow> Inl e
      | Inr response \<Rightarrow>
          if status response \<noteq> 200
          then Inl (Error (''Failed to fetch category with id '' @ decimal catId))
          else
            let d = data response;
                cs = map (\<lambda>clue. \<lparr>question = api_question clue, answer = api_answer clue,
                                   showing = Showing_null\<rparr>) (data_clues d)
            in Inr \<lparr>title = data_title d, clues = cs\<rparr>)"

section \<open>Promise.all\<close>

text \<open>
  \<^verbatim>\<open>Promise.all\<close> of an array of promises keeps an array of values, one slot per
  promise. When a promise fulfils, its value goes into its own slot, and once every slot
  is filled the result fulfils with the array; when a promise rejects, the result rejects
  with that reason at once. Here each promise is given by how it settles, and \<open>order\<close>
  lists the indices of the promises in the order in which they settle; an index outside
  the array or one that has settled already is passed over. When \<open>order\<close> ends before
  the result has settled, the result stays pending.
\<close>

datatype 'a settled = Pending | Resolved 'a | Rejected error

fun Promise_all_loop :: "(error + 'a) list \<Rightarrow> 'a option list \<Rightarrow> nat list \<Rightarrow> 'a list settled" where
  "Promise_all_loop ps vals [] = Pending"
| "Promise_all_loop ps vals (j # order) =
     (if length ps \<le> j \<or> vals ! j \<noteq> None then Promise_all_loop ps vals order
      else
        (case ps ! j of
           Inl e \<Rightarrow> Rejected e
         | Inr v \<Rightarrow>
             let vals' = vals[j := Some v]
             in if list_all (\<lambda>x. x \<noteq> None) vals' then Resolved (map the vals')
                else Promise_all_loop ps vals' order))"

definition Promise_all :: "(error + 'a) list \<Rightarrow> nat list \<Rightarrow> 'a list settled" where
  "Promise_all ps order =
     (if ps = [] then Resolved [] else Promise_all_loop ps (replicate (length ps) None) order)"

section \<open>setupAndStart\<close>

definition showLoadingView :: "page \<Rightarrow> page" where
  "showLoadingView s = s\<lparr>jeopardy_visible := False, loading_visible := True\<rparr>"

definition hideLoadingView :: "page \<Rightarrow> page" where
  "hideLoadingView s = s\<lparr>jeopardy_visible := True, loading_visible := False\<rparr>"

text \<open>
  What one run of \<^verbatim>\<open>setupAndStart\<close> gets from outside: the values of
  \<^verbatim>\<open>Math.random()\<close>, the reply to the category-list request, the reply to the detail
  request of each identifier, and the order in which the detail requests settle (indices
  into \<^verbatim>\<open>categoryIds\<close>).
\<close>

record network =
  random :: random_source
  categories_reply :: "error + api_category list response"
  category_reply :: "nat \<Rightarrow> error + category_data response"
  completion :: "nat list"

text \<open>The \<^verbatim>\<open>catch\<close> block: the error goes to the console, the notice to \<^verbatim>\<open>alert\<close>.\<close>

definition failure_notice :: string where
  "failure_notice = ''Failed to load game data. Please try again later.''"

definition catch_error :: "error \<Rightarrow> page \<Rightarrow> page" where
  "catch_error e s = s\<lparr>console := console s @ [e], alerts := alerts s @ [failure_notice]\<rparr>"

text \<open>
  The page after \<^verbatim>\<open>setupAndStart\<close> has run as far as it gets. When
  \<^verbatim>\<open>Promise.all\<close> stays pending the function never resumes, and the page stays as
  \<^verbatim>\<open>showLoadingView\<close> left it. After \<^verbatim>\<open>fillTable\<close> no cell of the grid has the class
  \<^verbatim>\<open>question\<close>, so \<^verbatim>\<open>$(".question").on("click", handleClick)\<close> binds nothing in the
  grid: clicks reach \<^verbatim>\<open>handleClick\<close> through the handler delegated to
  \<^verbatim>\<open>#jeopardy td\<close>.
\<close>

definition setupAndStart :: "network \<Rightarrow> page \<Rightarrow> page" where
  "setupAndStart net s0 =
     (let s = showLoadingView s0 in
      case getCategoryIds (random net) (categories_reply net) of
        Inl e \<Rightarrow> catch_error e s
      | Inr categoryIds \<Rightarrow>
          (case Promise_all
                  (map (\<lambda>catId. getCategory catId (category_reply net catId)) categoryIds)
                  (completion net) of
             Pending \<Rightarrow> s
           | Rejected e \<Rightarrow> catch_error e s
           | Resolved cats \<Rightarrow> hideLoadingView (fillTable (s\<lparr>categories := cats\<rparr>))))"

text \<open>
  The page when the script has loaded: no categories, nothing rendered, the board hidden
  and the loading indicator shown by the first \<^verbatim>\<open>ready\<close> handler (on a page whose
  markup has the \<^verbatim>\<open>#loading\<close> element by then).
\<close>

definition initial_page :: page where
  "initial_page =
     \<lparr>categories = [], jeopardy = empty_grid, jeopardy_visible = False,
      loading_visible = True, alerts = [], console = []\<rparr>"


section \<open>Example data\<close>

text \<open>A board as in the comment at the head of the script, two clues already clicked.\<close>

definition demo_categories :: "category list" where
  "demo_categories =
     [\<lparr>title = ''Math'',
       clues = [\<lparr>question = ''2+2'', answer = ''4'', showing = Showing_null\<rparr>,
                \<lparr>question = ''1+1'', answer = ''2'', showing = Showing_question\<rparr>]\<rparr>,
      \<lparr>title = ''Literature'',
       clues = [\<lparr>question = ''Hamlet Author'', answer = ''Shakespeare'',
                 showing = Showing_answer\<rparr>,
                \<lparr>question = ''Bell Jar Author'', answer = ''Plath'',
                 showing = Showing_null\<rparr>]\<rparr>]"

definition demo_page :: page where
  "demo_page = fillTable (initial_page\<lparr>categories := demo_categories\<rparr>)"

text \<open>A pool of seven categories, and a remote service that answers every request.\<close>

definition seven_categories :: "api_category list" where
  "seven_categories =
     [\<lparr>cat_id = 5, cat_title = ''history''\<rparr>, \<lparr>cat_id = 9, cat_title = ''science''\<rparr>,
      \<lparr>cat_id = 2, cat_title = ''sports''\<rparr>, \<lparr>cat_id = 7, cat_title = ''music''\<rparr>,
      \<lparr>cat_id = 1, cat_title = ''food''\<rparr>, \<lparr>cat_id = 3, cat_title = ''animals''\<rparr>,
      \<lparr>cat_id = 4, cat_title = ''rivers''\<rparr>]"

definition demo_clues :: "nat \<Rightarrow> api_clue list" where
  "demo_clues catId =
     map (\<lambda>k. \<lparr>clue_id = 10 * catId + k, api_question = ''Q'' @ decimal k,
               api_answer = ''A'' @ decimal k\<rparr>) [1, 2, 3, 4, 5]"

definition demo_category_reply :: "nat \<Rightarrow> error + category_data response" where
  "demo_category_reply catId =
     Inr \<lparr>status = 200,
          data = \<lparr>data_title = ''Category '' @ decimal catId,
                  data_clues = demo_clues catId\<rparr>\<rparr>"

definition net_ok :: network where
  "net_ok =
     \<lparr>random = (\<lambda>n. if even n then 3 / 4 else 1 / 4),
      categories_reply = Inr \<lparr>status = 200, data = seven_categories\<rparr>,
      category_reply = demo_category_reply,
      completion = [4, 1, 5, 0, 3, 2]\<rparr>"

text \<open>The same service when the category list cannot be fetched.\<close>

definition net_down :: network where
  "net_down = net_ok\<lparr>categories_reply := Inl (AxiosError 503)\<rparr>"

text \<open>The same service when the detail request for category 7 alone is refused.\<close>

definition net_one_missing :: network where
  "net_one_missing = net_ok\<lparr>category_reply := demo_category_reply(7 := Inl (AxiosError 404))\<rparr>"


text \<open>What \<^verbatim>\<open>getCategory\<close> makes of the reply of that service.\<close>

definition demo_category :: "nat \<Rightarrow> category" where
  "demo_category catId =
     \<lparr>title = ''Category '' @ decimal catId,
      clues = map (\<lambda>k. \<lparr>question = ''Q'' @ decimal k, answer = ''A'' @ decimal k,
                         showing = Showing_null\<rparr>) [1, 2, 3, 4, 5]\<rparr>"

section \<open>Properties of handleClick\<close>

lemma length_set_showing: "length (set_showing v r c cats) = length cats"
  by (simp add: set_showing_def)

lemma clue_at_set_showing_same:
  "c < length cats \<Longrightarrow> r < length (clues (cats ! c)) \<Longrightarrow>
   clue_at (set_showing v r c cats) r c = (clue_at cats r c)\<lparr>showing := v\<rparr>"
  by (simp add: set_showing_def clue_at_def)

lemma clue_at_set_showing_other:
  "i \<noteq> c \<or> j \<noteq> r \<Longrightarrow> clue_at (set_showing v r c cats) j i = clue_at cats j i"
  by (cases "c < length cats"; cases "i = c")
    (auto simp add: set_showing_def clue_at_def list_update_beyond)

lemma title_set_showing: "map title (set_showing v r c cats) = map title cats"
  by (cases "c < length cats")
    (auto simp add: set_showing_def list_update_beyond nth_list_update intro!: nth_equalityI)

lemma clues_length_set_showing:
  "length (clues (set_showing v r c cats ! i)) = length (clues (cats ! i))"
  by (cases "c < length cats"; cases "i = c")
    (simp_all add: set_showing_def list_update_beyond)

lemma question_answer_set_showing:
  "question (clue_at (set_showing v r c cats) j i) = question (clue_at cats j i) \<and>
   answer (clue_at (set_showing v r c cats) j i) = answer (clue_at cats j i)"
proof (cases "i = c \<and> j = r")
  case same: True
  show ?thesis
  proof (cases "c < length cats \<and> r < length (clues (cats ! c))")
    case True
    with same show ?thesis by (simp add: clue_at_set_showing_same)
  next
    case False
    with same show ?thesis
      by (auto simp add: set_showing_def clue_at_def list_update_beyond)
  qed
next
  case False
  then show ?thesis by (simp add: clue_at_set_showing_other)
qed

text \<open>With both indices in range, \<^verbatim>\<open>handleClick\<close> is the three-way branch on \<^verbatim>\<open>showing\<close>.\<close>

lemma handleClick_cases:
  assumes "c < length (categories s)" and "r < length (clues (categories s ! c))"
  shows "handleClick s r c =
     (case showing (clue_at (categories s) r c) of
        Showing_null \<Rightarrow>
          Inr (s\<lparr>jeopardy := update_body_cell
                     (\<lambda>cell. addClass ''question''
                        (set_text (question (clue_at (categories s) r c)) cell))
                     r c (jeopardy s),
                 categories := set_showing Showing_question r c (categories s)\<rparr>)
      | Showing_question \<Rightarrow>
          Inr (s\<lparr>jeopardy := update_body_cell
                     (\<lambda>cell. addClass ''answer''
                        (removeClass ''question''
                           (set_text (answer (clue_at (categories s) r c)) cell)))
                     r c (jeopardy s),
                 categories := set_showing Showing_answer r c (categories s)\<rparr>)
      | Showing_answer \<Rightarrow> Inr s)"
  using assms by (simp add: handleClick_def clue_at_def Let_def split: showing.split)

lemma handleClick_in_range:
  assumes "handleClick s r c = Inr s'"
  shows "c < length (categories s) \<and> r < length (clues (categories s ! c))"
  using assms by (auto simp add: handleClick_def Let_def split: if_splits)

lemma handleClick_categories:
  assumes "handleClick s r c = Inr s'"
  shows "categories s' = categories s \<and>
           showing (clue_at (categories s) r c) = Showing_answer \<or>
         categories s' =
           set_showing (next_showing (showing (clue_at (categories s) r c))) r c (categories s)"
proof -
  from handleClick_in_range [OF assms]
  have inr: "c < length (categories s)" "r < length (clues (categories s ! c))"
    by simp_all
  show ?thesis
    using assms unfolding handleClick_cases [OF inr]
    by (cases "showing (clue_at (categories s) r c)") auto
qed

lemma showing_step_set_showing:
  assumes "c < length cats" and "r < length (clues (cats ! c))"
  shows "showing (clue_at (set_showing (next_showing (showing (clue_at cats r c))) r c cats) j i) =
           showing (clue_at cats j i) \<or>
         showing (clue_at cats j i) = Showing_null \<and>
           showing (clue_at (set_showing (next_showing (showing (clue_at cats r c))) r c cats) j i) =
             Showing_question \<or>
         showing (clue_at cats j i) = Showing_question \<and>
           showing (clue_at (set_showing (next_showing (showing (clue_at cats r c))) r c cats) j i) =
             Showing_answer"
proof (cases "i = c \<and> j = r")
  case True
  then show ?thesis
    using assms by (cases "showing (clue_at cats r c)") (simp_all add: clue_at_set_showing_same)
next
  case False
  then show ?thesis by (simp add: clue_at_set_showing_other)
qed

lemma body_cell_update_same:
  "r < length (tbody g) \<Longrightarrow> c < length (tbody g ! r) \<Longrightarrow>
   body_cell (update_body_cell f r c g) r c = f (body_cell g r c)"
  by (simp add: body_cell_def update_body_cell_def)

lemma cell_text_addClass: "cell_text (addClass k x) = cell_text x"
  by (simp add: addClass_def)

lemma cell_text_removeClass: "cell_text (removeClass k x) = cell_text x"
  by (simp add: removeClass_def)

lemma cell_text_set_text: "cell_text (set_text t x) = t"
  by (simp add: set_text_def)

lemmas demo_defs = demo_page_def demo_categories_def initial_page_def fillTable_def
  append_tbody_def append_thead_def empty_grid_def headerRow_def bodyRow_def
  NUM_QUESTIONS_PER_CAT_def new_cell_def set_text_def

text \<open>
  C1. A click on a cell whose clue exists succeeds and moves that clue's \<^verbatim>\<open>showing\<close>
  one step along null (hidden), question, answer, where answer stays answer; a click in
  state answer returns the page as it was, the text of every cell included; and the
  \<^verbatim>\<open>showing\<close> of every clue of the board either keeps its value or goes from null to
  question or from question to answer.
\<close>

theorem handleClick_showing_transitions:
  assumes "c < length (categories s)" and "r < length (clues (categories s ! c))"
  shows "\<exists>s'. handleClick s r c = Inr s' \<and>
     showing (clue_at (categories s') r c) = next_showing (showing (clue_at (categories s) r c)) \<and>
     (showing (clue_at (categories s) r c) = Showing_answer \<longrightarrow> s' = s) \<and>
     (\<forall>i < length (categories s). \<forall>j < length (clues (categories s ! i)).
        showing (clue_at (categories s') j i) = showing (clue_at (categories s) j i) \<or>
        showing (clue_at (categories s) j i) = Showing_null \<and>
          showing (clue_at (categories s') j i) = Showing_question \<or>
        showing (clue_at (categories s) j i) = Showing_question \<and>
          showing (clue_at (categories s') j i) = Showing_answer)"
proof -
  obtain s' where s': "handleClick s r c = Inr s'"
    using handleClick_cases [OF assms] by (cases "showing (clue_at (categories s) r c)") simp_all
  note cats = handleClick_categories [OF s']
  have adv: "showing (clue_at (categories s') r c) =
      next_showing (showing (clue_at (categories s) r c))"
    using cats assms by (auto simp add: clue_at_set_showing_same)
  have noop: "showing (clue_at (categories s) r c) = Showing_answer \<longrightarrow> s' = s"
    using s' unfolding handleClick_cases [OF assms] by auto
  have step: "showing (clue_at (categories s') j i) = showing (clue_at (categories s) j i) \<or>
        showing (clue_at (categories s) j i) = Showing_null \<and>
          showing (clue_at (categories s') j i) = Showing_question \<or>
        showing (clue_at (categories s) j i) = Showing_question \<and>
          showing (clue_at (categories s') j i) = Showing_answer" for i j
    using cats showing_step_set_showing [OF assms, of j i] by auto
  from s' adv noop step show ?thesis by blast
qed

theorem handleClick_showing_transitions_witness:
  "0 < length (categories demo_page) \<and> 0 < length (clues (categories demo_page ! 0)) \<and>
   (\<exists>s'. handleClick demo_page 0 0 = Inr s' \<and>
      showing (clue_at (categories demo_page) 0 0) = Showing_null \<and>
      showing (clue_at (categories s') 0 0) = Showing_question)"
  using handleClick_showing_transitions [of 0 demo_page 0]
  by (auto simp add: demo_defs clue_at_def)

text \<open>
  C7. A click on the body cell in row \<open>r\<close>, column \<open>c\<close> advances the clue
  \<^verbatim>\<open>categories[c].clues[r]\<close>: after the click that clue is the old one with
  \<^verbatim>\<open>showing\<close> moved one step, and the clicked cell shows that clue's question (from
  state null) or answer (from state question).
\<close>

theorem handleClick_resolves_clue:
  assumes "c < length (categories s)" and "r < length (clues (categories s ! c))"
  shows "\<exists>s'. handleClick s r c = Inr s' \<and>
     clues (categories s' ! c) ! r =
       (clues (categories s ! c) ! r)
         \<lparr>showing := next_showing (showing (clues (categories s ! c) ! r))\<rparr> \<and>
     (r < length (tbody (jeopardy s)) \<and> c < length (tbody (jeopardy s) ! r) \<longrightarrow>
        (showing (clues (categories s ! c) ! r) = Showing_null \<longrightarrow>
           cell_text (body_cell (jeopardy s') r c) = question (clues (categories s ! c) ! r)) \<and>
        (showing (clues (categories s ! c) ! r) = Showing_question \<longrightarrow>
           cell_text (body_cell (jeopardy s') r c) = answer (clues (categories s ! c) ! r)))"
proof (cases "showing (clue_at (categories s) r c)")
  case Showing_null
  then show ?thesis
    using assms clue_at_set_showing_same [OF assms, of Showing_question]
    by (simp add: handleClick_cases [OF assms] clue_at_def body_cell_update_same
        cell_text_addClass cell_text_set_text)
next
  case Showing_question
  then show ?thesis
    using assms clue_at_set_showing_same [OF assms, of Showing_answer]
    by (simp add: handleClick_cases [OF assms] clue_at_def body_cell_update_same
        cell_text_addClass cell_text_removeClass cell_text_set_text)
next
  case Showing_answer
  then show ?thesis
    by (simp add: handleClick_cases [OF assms] clue_at_def)
qed

theorem handleClick_resolves_clue_witness:
  "0 < length (categories demo_page) \<and> 1 < length (clues (categories demo_page ! 0)) \<and>
   (\<exists>s'. handleClick demo_page 1 0 = Inr s' \<and>
      clues (categories s' ! 0) ! 1 =
        \<lparr>question = ''1+1'', answer = ''2'', showing = Showing_answer\<rparr> \<and>
      cell_text (body_cell (jeopardy s') 1 0) = ''2'')"
  using handleClick_resolves_clue [of 0 demo_page 1]
  by (auto simp add: demo_defs)

text \<open>
  C9. A click that \<^verbatim>\<open>handleClick\<close> handles leaves the number of categories, every
  title, the number of clues of every category and the question and answer of every clue
  as they were, and leaves every clue other than \<^verbatim>\<open>categories[c].clues[r]\<close> unchanged
  altogether.
\<close>

theorem handleClick_frame:
  assumes "handleClick s r c = Inr s'"
  shows "length (categories s') = length (categories s) \<and>
     map title (categories s') = map title (categories s) \<and>
     (\<forall>i < length (categories s).
        length (clues (categories s' ! i)) = length (clues (categories s ! i)) \<and>
        (\<forall>j < length (clues (categories s ! i)).
           question (clue_at (categories s') j i) = question (clue_at (categories s) j i) \<and>
           answer (clue_at (categories s') j i) = answer (clue_at (categories s) j i) \<and>
           (i \<noteq> c \<or> j \<noteq> r \<longrightarrow> clue_at (categories s') j i = clue_at (categories s) j i)))"
  using handleClick_categories [OF assms]
  by (auto simp add: length_set_showing title_set_showing clues_length_set_showing
      question_answer_set_showing clue_at_set_showing_other)

theorem handleClick_frame_witness:
  "\<exists>s'. handleClick demo_page 1 1 = Inr s' \<and>
     map title (categories s') = [''Math'', ''Literature''] \<and>
     clue_at (categories s') 1 0 = clue_at (categories demo_page) 1 0 \<and>
     question (clue_at (categories s') 1 1) = ''Bell Jar Author''"
proof -
  obtain s' where s': "handleClick demo_page 1 1 = Inr s'"
    by (simp add: handleClick_def demo_defs Let_def)
  from handleClick_frame [OF s'] s' show ?thesis
    by (auto simp add: demo_defs clue_at_def)
qed

text \<open>
  C10. \<^verbatim>\<open>handleClick\<close> does not check its indices: with a column index at or past the
  number of categories (any click while \<^verbatim>\<open>categories\<close> is still empty, say) it throws
  the \<^verbatim>\<open>TypeError\<close> of reading \<^verbatim>\<open>.clues\<close> of \<^verbatim>\<open>undefined\<close>.
\<close>

theorem handleClick_no_bounds_check:
  assumes "length (categories s) \<le> colIndex"
  shows "handleClick s rowIndex colIndex = Inl TypeError"
  using assms by (simp add: handleClick_def)

theorem handleClick_no_bounds_check_witness:
  "length (categories initial_page) \<le> 0 \<and> handleClick initial_page 0 0 = Inl TypeError"
  using handleClick_no_bounds_check [of initial_page 0 0]
  by (simp add: initial_page_def)

section \<open>Properties of fillTable\<close>

lemma fillTable_grid:
  "jeopardy (fillTable s) =
     \<lparr>thead = [headerRow (categories s)],
      tbody = replicate NUM_QUESTIONS_PER_CAT (bodyRow (categories s))\<rparr>"
  by (simp add: fillTable_def append_tbody_def append_thead_def empty_grid_def)

lemma fillTable_categories: "categories (fillTable s) = categories s"
  by (simp add: fillTable_def)

lemma cell_text_headerRow: "map cell_text (headerRow cats) = map title cats"
  by (simp add: headerRow_def set_text_def new_cell_def comp_def)

lemma cell_text_bodyRow: "cell \<in> set (bodyRow cats) \<Longrightarrow> cell_text cell = ''?''"
  by (auto simp add: bodyRow_def set_text_def new_cell_def)

lemma length_concat_replicate: "length (concat (replicate n xs)) = n * length xs"
  by (induction n) simp_all

lemma sum_list_const: "\<forall>x \<in> set xs. f x = (m::nat) \<Longrightarrow> sum_list (map f xs) = length xs * m"
  by (induction xs) simp_all

text \<open>
  C5. For a board of \<^verbatim>\<open>NUM_CATEGORIES\<close> categories with \<^verbatim>\<open>NUM_QUESTIONS_PER_CAT\<close>
  clues each, \<^verbatim>\<open>fillTable\<close> renders one header row whose cells carry the titles in
  order, \<^verbatim>\<open>NUM_CATEGORIES\<close> header cells in all, and
  \<^verbatim>\<open>NUM_CATEGORIES * NUM_QUESTIONS_PER_CAT\<close> body cells, one per clue, each with the
  text "?" whatever the clues say.
\<close>

theorem fillTable_cells:
  assumes "length (categories s) = NUM_CATEGORIES"
    and "\<forall>cat \<in> set (categories s). length (clues cat) = NUM_QUESTIONS_PER_CAT"
  shows "map (map cell_text) (thead (jeopardy (fillTable s))) = [map title (categories s)] \<and>
     length (concat (thead (jeopardy (fillTable s)))) = NUM_CATEGORIES \<and>
     length (concat (tbody (jeopardy (fillTable s)))) = NUM_CATEGORIES * NUM_QUESTIONS_PER_CAT \<and>
     length (concat (tbody (jeopardy (fillTable s)))) =
       sum_list (map (\<lambda>cat. length (clues cat)) (categories s)) \<and>
     (\<forall>cell \<in> set (concat (tbody (jeopardy (fillTable s)))). cell_text cell = ''?'')"
proof -
  have head: "map (map cell_text) (thead (jeopardy (fillTable s))) = [map title (categories s)]"
    by (simp add: fillTable_grid cell_text_headerRow)
  have nhead: "length (concat (thead (jeopardy (fillTable s)))) = NUM_CATEGORIES"
    using assms(1) by (simp add: fillTable_grid headerRow_def)
  have nbody: "length (concat (tbody (jeopardy (fillTable s)))) =
      NUM_CATEGORIES * NUM_QUESTIONS_PER_CAT"
    using assms(1) by (simp add: fillTable_grid length_concat_replicate bodyRow_def)
  have "sum_list (map (\<lambda>cat. length (clues cat)) (categories s)) =
      length (categories s) * NUM_QUESTIONS_PER_CAT"
    using assms(2) by (rule sum_list_const)
  with nbody assms(1)
  have per_clue: "length (concat (tbody (jeopardy (fillTable s)))) =
      sum_list (map (\<lambda>cat. length (clues cat)) (categories s))"
    by simp
  have marks: "\<forall>cell \<in> set (concat (tbody (jeopardy (fillTable s)))). cell_text cell = ''?''"
    by (auto simp add: fillTable_grid dest: cell_text_bodyRow)
  from head nhead nbody per_clue marks show ?thesis by blast
qed

theorem fillTable_cells_witness:
  "length (categories (initial_page\<lparr>categories := map demo_category [9, 5, 7, 1, 3, 4]\<rparr>)) =
     NUM_CATEGORIES \<and>
   length (clues (demo_category 9)) = NUM_QUESTIONS_PER_CAT \<and>
   map (map cell_text)
     (thead (jeopardy (fillTable (initial_page\<lparr>categories := map demo_category [9, 5, 7, 1, 3, 4]\<rparr>)))) =
     [map title (map demo_category [9, 5, 7, 1, 3, 4])] \<and>
   length (concat
     (tbody (jeopardy (fillTable (initial_page\<lparr>categories := map demo_category [9, 5, 7, 1, 3, 4]\<rparr>))))) =
     30"
  using fillTable_cells [of "initial_page\<lparr>categories := map demo_category [9, 5, 7, 1, 3, 4]\<rparr>"]
  by (simp add: demo_category_def NUM_CATEGORIES_def NUM_QUESTIONS_PER_CAT_def)

text \<open>
  C8. \<^verbatim>\<open>fillTable\<close> starts from the emptied \<^verbatim>\<open>#jeopardy\<close>: whatever grid was there
  before, the page it returns is the same, and its grid consists of the freshly built
  header row and body rows alone.
\<close>

theorem fillTable_clears_previous_grid:
  "fillTable (s\<lparr>jeopardy := old\<rparr>) = fillTable s \<and>
   jeopardy (fillTable s) =
     \<lparr>thead = [headerRow (categories s)],
      tbody = replicate NUM_QUESTIONS_PER_CAT (bodyRow (categories s))\<rparr>"
  by (simp add: fillTable_def append_tbody_def append_thead_def empty_grid_def)

section \<open>Properties of Promise.all\<close>

text \<open>One settling promise at a time: the four things the loop can do with it.\<close>

lemma Promise_all_loop_skip:
  "length ps \<le> j \<or> vals ! j \<noteq> None \<Longrightarrow>
   Promise_all_loop ps vals (j # order) = Promise_all_loop ps vals order"
  by simp

lemma Promise_all_loop_reject:
  "j < length ps \<Longrightarrow> vals ! j = None \<Longrightarrow> ps ! j = Inl e \<Longrightarrow>
   Promise_all_loop ps vals (j # order) = Rejected e"
  by simp

lemma Promise_all_loop_last:
  "j < length ps \<Longrightarrow> vals ! j = None \<Longrightarrow> ps ! j = Inr v \<Longrightarrow>
   list_all (\<lambda>x. x \<noteq> None) (vals[j := Some v]) \<Longrightarrow>
   Promise_all_loop ps vals (j # order) = Resolved (map the (vals[j := Some v]))"
  by simp

lemma Promise_all_loop_store:
  "j < length ps \<Longrightarrow> vals ! j = None \<Longrightarrow> ps ! j = Inr v \<Longrightarrow>
   \<not> list_all (\<lambda>x. x \<noteq> None) (vals[j := Some v]) \<Longrightarrow>
   Promise_all_loop ps vals (j # order) = Promise_all_loop ps (vals[j := Some v]) order"
  by simp

lemma Promise_all_loop_fulfils:
  assumes "length vals = length ps"
    and "length vs = length ps"
    and "\<forall>k < length ps. ps ! k = Inr (vs ! k)"
    and "\<forall>k < length ps. vals ! k = None \<or> vals ! k = Some (vs ! k)"
    and "\<exists>k < length ps. vals ! k = None"
    and "\<forall>k < length ps. vals ! k = None \<longrightarrow> k \<in> set order"
  shows "Promise_all_loop ps vals order = Resolved vs"
  using assms(1,4,5,6)
proof (induction order arbitrary: vals)
  case Nil
  from Nil(3) obtain k where "k < length ps" "vals ! k = None" by blast
  with Nil(4) have "k \<in> set []" by blast
  then show ?case by simp
next
  case (Cons j order)
  note len = Cons.prems(1) and inv = Cons.prems(2) and ex = Cons.prems(3)
    and todo = Cons.prems(4)
  show ?case
  proof (cases "length ps \<le> j \<or> vals ! j \<noteq> None")
    case True
    have "\<forall>k < length ps. vals ! k = None \<longrightarrow> k \<in> set order"
    proof (intro allI impI)
      fix k assume k: "k < length ps" "vals ! k = None"
      with todo have "k \<in> set (j # order)" by blast
      moreover from k True have "k \<noteq> j" by auto
      ultimately show "k \<in> set order" by simp
    qed
    from Cons.IH [OF len inv ex this] Promise_all_loop_skip [OF True]
    show ?thesis by (simp only:)
  next
    case False
    then have j: "j < length ps" "vals ! j = None" by auto
    from assms(3) j(1) have psj: "ps ! j = Inr (vs ! j)" by blast
    let ?vals' = "vals[j := Some (vs ! j)]"
    have len': "length ?vals' = length ps" using len by simp
    have inv': "\<forall>k < length ps. ?vals' ! k = None \<or> ?vals' ! k = Some (vs ! k)"
    proof (intro allI impI)
      fix k assume k: "k < length ps"
      show "?vals' ! k = None \<or> ?vals' ! k = Some (vs ! k)"
      proof (cases "k = j")
        case True
        with j(1) len show ?thesis by simp
      next
        case False
        with inv k show ?thesis by simp
      qed
    qed
    show ?thesis
    proof (cases "list_all (\<lambda>x. x \<noteq> None) ?vals'")
      case True
      have "map the ?vals' = vs"
      proof (rule nth_equalityI)
        show "length (map the ?vals') = length vs" using len assms(2) by simp
      next
        fix i assume "i < length (map the ?vals')"
        then have i: "i < length ps" using len by simp
        with True len' have "?vals' ! i \<noteq> None" by (simp add: list_all_length)
        with inv' [rule_format, OF i] have "?vals' ! i = Some (vs ! i)" by simp
        with i len' show "map the ?vals' ! i = vs ! i" by simp
      qed
      with Promise_all_loop_last [OF j psj True] show ?thesis by (simp only:)
    next
      case nall: False
      with len' obtain k0 where "k0 < length ps" "?vals' ! k0 = None"
        by (auto simp add: list_all_length)
      then have ex': "\<exists>k < length ps. ?vals' ! k = None" by blast
      have todo': "\<forall>k < length ps. ?vals' ! k = None \<longrightarrow> k \<in> set order"
      proof (intro allI impI)
        fix k assume k: "k < length ps" "?vals' ! k = None"
        have kj: "k \<noteq> j"
        proof
          assume "k = j"
          with j(1) len have "?vals' ! k = Some (vs ! j)" by simp
          with k(2) show False by simp
        qed
        with k(2) have "vals ! k = None" by simp
        with todo k(1) have "k \<in> set (j # order)" by blast
        with kj show "k \<in> set order" by simp
      qed
      from Cons.IH [OF len' inv' ex' todo'] Promise_all_loop_store [OF j psj nall]
      show ?thesis by (simp only:)
    qed
  qed
qed

lemma Promise_all_fulfils:
  assumes "{..<length vs} \<subseteq> set order"
  shows "Promise_all (map Inr vs) order = Resolved vs"
proof (cases "vs = []")
  case True
  then show ?thesis by (simp add: Promise_all_def)
next
  case False
  let ?ps = "map Inr vs :: (error + 'a) list"
  have "Promise_all_loop ?ps (replicate (length ?ps) None) order = Resolved vs"
  proof (rule Promise_all_loop_fulfils)
    show "length (replicate (length ?ps) (None :: 'a option)) = length ?ps" by simp
    show "length vs = length ?ps" by simp
    show "\<forall>k < length ?ps. ?ps ! k = Inr (vs ! k)" by simp
    show "\<forall>k < length ?ps. replicate (length ?ps) (None :: 'a option) ! k = None \<or>
        replicate (length ?ps) None ! k = Some (vs ! k)" by simp
    from False show "\<exists>k < length ?ps. replicate (length ?ps) (None :: 'a option) ! k = None"
      by (intro exI [of _ 0]) simp
    from assms show "\<forall>k < length ?ps.
        replicate (length ?ps) (None :: 'a option) ! k = None \<longrightarrow> k \<in> set order"
      by auto
  qed
  with False show ?thesis by (simp add: Promise_all_def)
qed

lemma Promise_all_loop_rejects:
  assumes "i < length ps" and "ps ! i = Inl e" and "i \<in> set order"
    and "length vals = length ps" and "vals ! i = None"
  shows "\<exists>e'. Promise_all_loop ps vals order = Rejected e'"
  using assms(3,4,5)
proof (induction order arbitrary: vals)
  case Nil
  then show ?case by simp
next
  case (Cons j order)
  note mem = Cons.prems(1) and len = Cons.prems(2) and none = Cons.prems(3)
  show ?case
  proof (cases "length ps \<le> j \<or> vals ! j \<noteq> None")
    case True
    with assms(1) none have "j \<noteq> i" by auto
    with mem have "i \<in> set order" by simp
    from Cons.IH [OF this len none] Promise_all_loop_skip [OF True]
    show ?thesis by (simp only:)
  next
    case False
    then have j: "j < length ps" "vals ! j = None" by auto
    show ?thesis
    proof (cases "ps ! j")
      case (Inl e')
      from Promise_all_loop_reject [OF j Inl] show ?thesis by blast
    next
      case (Inr v)
      with assms(2) have ji: "j \<noteq> i" by auto
      with mem have mem': "i \<in> set order" by simp
      let ?vals' = "vals[j := Some v]"
      have len': "length ?vals' = length ps" using len by simp
      have none': "?vals' ! i = None" using ji none by simp
      have nall: "\<not> list_all (\<lambda>x. x \<noteq> None) ?vals'"
      proof
        assume "list_all (\<lambda>x. x \<noteq> None) ?vals'"
        with assms(1) len' have "?vals' ! i \<noteq> None" by (simp add: list_all_length)
        with none' show False by simp
      qed
      from Cons.IH [OF mem' len' none'] Promise_all_loop_store [OF j Inr nall]
      show ?thesis by (simp only:)
    qed
  qed
qed

lemma Promise_all_rejects:
  assumes "i < length ps" and "ps ! i = Inl e" and "i \<in> set order"
  shows "\<exists>e'. Promise_all ps order = Rejected e'"
proof -
  from assms(1) have "ps \<noteq> []" by auto
  moreover have "\<exists>e'. Promise_all_loop ps (replicate (length ps) None) order = Rejected e'"
    using assms by (intro Promise_all_loop_rejects [of i ps e]) simp_all
  ultimately show ?thesis by (simp add: Promise_all_def)
qed

lemma Promise_all_loop_resolved:
  assumes "Promise_all_loop ps vals order = Resolved vs"
    and "length vals = length ps"
    and "\<forall>k < length ps. \<forall>v. vals ! k = Some v \<longrightarrow> ps ! k = Inr v"
  shows "ps = map Inr vs"
  using assms
proof (induction order arbitrary: vals)
  case Nil
  then show ?case by simp
next
  case (Cons j order)
  note res = Cons.prems(1) and len = Cons.prems(2) and inv = Cons.prems(3)
  show ?case
  proof (cases "length ps \<le> j \<or> vals ! j \<noteq> None")
    case True
    from res Promise_all_loop_skip [OF True]
    have "Promise_all_loop ps vals order = Resolved vs" by (simp only:)
    from Cons.IH [OF this len inv] show ?thesis .
  next
    case False
    then have j: "j < length ps" "vals ! j = None" by auto
    show ?thesis
    proof (cases "ps ! j")
      case (Inl e)
      from res Promise_all_loop_reject [OF j Inl] show ?thesis by simp
    next
      case (Inr v)
      let ?vals' = "vals[j := Some v]"
      have len': "length ?vals' = length ps" using len by simp
      have inv': "\<forall>k < length ps. \<forall>w. ?vals' ! k = Some w \<longrightarrow> ps ! k = Inr w"
      proof (intro allI impI)
        fix k w assume k: "k < length ps" and w: "?vals' ! k = Some w"
        show "ps ! k = Inr w"
        proof (cases "k = j")
          case True
          with w j(1) len Inr show ?thesis by simp
        next
          case False
          with w have "vals ! k = Some w" by simp
          with inv [rule_format, OF k] show ?thesis by simp
        qed
      qed
      show ?thesis
      proof (cases "list_all (\<lambda>x. x \<noteq> None) ?vals'")
        case True
        from res Promise_all_loop_last [OF j Inr True] have vs: "vs = map the ?vals'"
          by simp
        show ?thesis
        proof (rule nth_equalityI)
          show "length ps = length (map Inr vs)" using vs len by simp
        next
          fix k assume k: "k < length ps"
          with True len' have "?vals' ! k \<noteq> None" by (simp add: list_all_length)
          then obtain w where w: "?vals' ! k = Some w" by blast
          from inv' [rule_format, OF k w] have a: "ps ! k = Inr w" .
          from w k len' vs have b: "map Inr vs ! k = Inr w" by simp
          show "ps ! k = map Inr vs ! k" by (simp only: a b)
        qed
      next
        case False
        from res Promise_all_loop_store [OF j Inr False]
        have "Promise_all_loop ps ?vals' order = Resolved vs" by (simp only:)
        from Cons.IH [OF this len' inv'] show ?thesis .
      qed
    qed
  qed
qed

lemma Promise_all_resolved:
  assumes "Promise_all ps order = Resolved vs"
  shows "ps = map Inr vs"
proof (cases "ps = []")
  case True
  with assms show ?thesis by (simp add: Promise_all_def)
next
  case False
  with assms have "Promise_all_loop ps (replicate (length ps) None) order = Resolved vs"
    by (simp add: Promise_all_def)
  then show ?thesis by (rule Promise_all_loop_resolved) simp_all
qed

section \<open>setupAndStart: the three ways a run ends\<close>

lemma setupAndStart_fetch_failed:
  assumes "getCategoryIds (random net) (categories_reply net) = Inl e"
  shows "setupAndStart net s = catch_error e (showLoadingView s)"
  using assms by (simp add: setupAndStart_def)

lemma setupAndStart_load_failed:
  assumes "getCategoryIds (random net) (categories_reply net) = Inr ids"
    and "i < length ids" and "i \<in> set (completion net)"
    and "getCategory (ids ! i) (category_reply net (ids ! i)) = Inl e"
  shows "\<exists>e'. setupAndStart net s = catch_error e' (showLoadingView s)"
proof -
  let ?ps = "map (\<lambda>catId. getCategory catId (category_reply net catId)) ids"
  have "i < length ?ps" using assms(2) by simp
  moreover have "?ps ! i = Inl e" using assms(2,4) by simp
  ultimately obtain e' where "Promise_all ?ps (completion net) = Rejected e'"
    using Promise_all_rejects [of i ?ps e "completion net"] assms(3) by blast
  with assms(1) have "setupAndStart net s = catch_error e' (showLoadingView s)"
    by (simp add: setupAndStart_def)
  then show ?thesis ..
qed

lemma setupAndStart_loaded:
  assumes "getCategoryIds (random net) (categories_reply net) = Inr ids"
    and "map (\<lambda>catId. getCategory catId (category_reply net catId)) ids = map Inr cats"
    and "{..<length ids} \<subseteq> set (completion net)"
  shows "setupAndStart net s = hideLoadingView (fillTable (showLoadingView s\<lparr>categories := cats\<rparr>))"
proof -
  have "length cats = length ids" using assms(2) by (metis length_map)
  with assms(3) have "Promise_all (map Inr cats) (completion net) = Resolved cats"
    by (intro Promise_all_fulfils) simp
  with assms(1,2) show ?thesis by (simp add: setupAndStart_def)
qed

lemma catch_error_fields:
  "categories (catch_error e s) = categories s"
  "jeopardy (catch_error e s) = jeopardy s"
  "jeopardy_visible (catch_error e s) = jeopardy_visible s"
  "loading_visible (catch_error e s) = loading_visible s"
  "alerts (catch_error e s) = alerts s @ [failure_notice]"
  "console (catch_error e s) = console s @ [e]"
  by (simp_all add: catch_error_def)

lemma showLoadingView_fields:
  "categories (showLoadingView s) = categories s"
  "jeopardy (showLoadingView s) = jeopardy s"
  "jeopardy_visible (showLoadingView s) = False"
  "loading_visible (showLoadingView s) = True"
  "alerts (showLoadingView s) = alerts s"
  "console (showLoadingView s) = console s"
  by (simp_all add: showLoadingView_def)

section \<open>Properties of setupAndStart\<close>

lemmas net_defs = net_ok_def net_down_def net_one_missing_def seven_categories_def
  demo_category_reply_def demo_clues_def

lemma ids_net_ok:
  "getCategoryIds (random net_ok) (categories_reply net_ok) = Inr [9, 5, 7, 1, 3, 4]"
  by (simp add: net_defs getCategoryIds_def sort_random_def compare_random_def
      NUM_CATEGORIES_def)

lemma getCategory_demo: "getCategory catId (demo_category_reply catId) = Inr (demo_category catId)"
  by (simp add: getCategory_def demo_category_reply_def demo_clues_def demo_category_def)

lemma loads_net_ok:
  "map (\<lambda>catId. getCategory catId (category_reply net_ok catId)) ids = map Inr (map demo_category ids)"
  by (simp add: net_ok_def getCategory_demo)

text \<open>
  C2. When the fetcher returns the identifiers \<open>ids\<close> and every \<^verbatim>\<open>getCategory\<close> call
  fulfils, then in whatever order the calls settle, \<^verbatim>\<open>categories\<close> holds their results
  in the order of \<open>ids\<close>, the header row shows the titles in that order, and every body
  row has one cell per identifier.
\<close>

theorem setupAndStart_category_order:
  assumes "getCategoryIds (random net) (categories_reply net) = Inr ids"
    and "map (\<lambda>catId. getCategory catId (category_reply net catId)) ids = map Inr cats"
    and "{..<length ids} \<subseteq> set order"
  shows "categories (setupAndStart (net\<lparr>completion := order\<rparr>) s) = cats \<and>
     map (map cell_text) (thead (jeopardy (setupAndStart (net\<lparr>completion := order\<rparr>) s))) =
       [map title cats] \<and>
     (\<forall>row \<in> set (tbody (jeopardy (setupAndStart (net\<lparr>completion := order\<rparr>) s))).
        length row = length ids)"
proof -
  have "setupAndStart (net\<lparr>completion := order\<rparr>) s =
      hideLoadingView (fillTable (showLoadingView s\<lparr>categories := cats\<rparr>))"
    using assms by (intro setupAndStart_loaded [of _ ids]) simp_all
  moreover have "length cats = length ids" using assms(2) by (metis length_map)
  ultimately show ?thesis
    by (simp add: hideLoadingView_def fillTable_grid fillTable_categories cell_text_headerRow
        bodyRow_def)
qed

theorem setupAndStart_category_order_witness:
  "getCategoryIds (random net_ok) (categories_reply net_ok) = Inr [9, 5, 7, 1, 3, 4] \<and>
   categories (setupAndStart (net_ok\<lparr>completion := [2, 0, 1, 5, 4, 3]\<rparr>) initial_page) =
     map demo_category [9, 5, 7, 1, 3, 4] \<and>
   categories (setupAndStart (net_ok\<lparr>completion := [5, 4, 3, 2, 1, 0]\<rparr>) initial_page) =
     map demo_category [9, 5, 7, 1, 3, 4]"
proof -
  have a: "{..<length [9, 5, 7, 1, 3, 4 :: nat]} \<subseteq> set [2, 0, 1, 5, 4, 3 :: nat]"
    by (auto simp add: lessThan_def less_Suc_eq numeral_eq_Suc)
  have b: "{..<length [9, 5, 7, 1, 3, 4 :: nat]} \<subseteq> set [5, 4, 3, 2, 1, 0 :: nat]"
    by (auto simp add: lessThan_def less_Suc_eq numeral_eq_Suc)
  from setupAndStart_category_order [OF ids_net_ok loads_net_ok a, of initial_page]
    setupAndStart_category_order [OF ids_net_ok loads_net_ok b, of initial_page]
    ids_net_ok
  show ?thesis by blast
qed

text \<open>
  C3. When the fetcher returns identifiers and one \<^verbatim>\<open>getCategory\<close> call among them is
  rejected, the attempt fails whatever the other calls do: \<^verbatim>\<open>categories\<close> and the
  grid are what they were before the attempt, the board stays hidden, and the failure
  notice is raised.
\<close>

theorem setupAndStart_load_failure_atomic:
  assumes "getCategoryIds (random net) (categories_reply net) = Inr ids"
    and "i < length ids" and "i \<in> set (completion net)"
    and "getCategory (ids ! i) (category_reply net (ids ! i)) = Inl e"
  shows "categories (setupAndStart net s) = categories s \<and>
     jeopardy (setupAndStart net s) = jeopardy s \<and>
     \<not> jeopardy_visible (setupAndStart net s) \<and>
     alerts (setupAndStart net s) = alerts s @ [failure_notice]"
  using setupAndStart_load_failed [OF assms, of s]
  by (auto simp add: catch_error_fields showLoadingView_fields)

theorem setupAndStart_load_failure_atomic_witness:
  "getCategoryIds (random net_one_missing) (categories_reply net_one_missing) =
     Inr [9, 5, 7, 1, 3, 4] \<and>
   getCategory 7 (category_reply net_one_missing 7) = Inl (AxiosError 404) \<and>
   categories (setupAndStart net_one_missing demo_page) = categories demo_page \<and>
   jeopardy (setupAndStart net_one_missing demo_page) = jeopardy demo_page \<and>
   alerts (setupAndStart net_one_missing demo_page) = [failure_notice]"
proof -
  have ids: "getCategoryIds (random net_one_missing) (categories_reply net_one_missing) =
      Inr [9, 5, 7, 1, 3, 4]"
    using ids_net_ok by (simp add: net_one_missing_def net_ok_def)
  have i: "2 < length [9, 5, 7, 1, 3, 4 :: nat]" "2 \<in> set (completion net_one_missing)"
    by (simp_all add: net_one_missing_def net_ok_def)
  have e: "getCategory ([9, 5, 7, 1, 3, 4] ! 2) (category_reply net_one_missing ([9, 5, 7, 1, 3, 4] ! 2)) =
      Inl (AxiosError 404)"
    by (simp add: net_one_missing_def net_ok_def getCategory_def)
  have "alerts demo_page = []" by (simp add: demo_defs)
  with setupAndStart_load_failure_atomic [OF ids i e, of demo_page] ids e
  show ?thesis by simp
qed

text \<open>
  What a failed run leaves behind. When the fetch fails, or a \<^verbatim>\<open>getCategory\<close> call
  is rejected, \<^verbatim>\<open>setupAndStart\<close> raises the failure notice and leaves
  \<^verbatim>\<open>categories\<close> and the grid as they were, with the board hidden; and the loading
  indicator, displayed by \<^verbatim>\<open>showLoadingView\<close>, is still displayed, since the
  \<^verbatim>\<open>catch\<close> block does not call \<^verbatim>\<open>hideLoadingView\<close>.
\<close>

lemma setupAndStart_failure_state:
  assumes "(\<exists>e. getCategoryIds (random net) (categories_reply net) = Inl e) \<or>
     (\<exists>ids i e. getCategoryIds (random net) (categories_reply net) = Inr ids \<and>
        i < length ids \<and> i \<in> set (completion net) \<and>
        getCategory (ids ! i) (category_reply net (ids ! i)) = Inl e)"
  shows "alerts (setupAndStart net s) = alerts s @ [failure_notice] \<and>
     categories (setupAndStart net s) = categories s \<and>
     jeopardy (setupAndStart net s) = jeopardy s \<and>
     \<not> jeopardy_visible (setupAndStart net s) \<and>
     loading_visible (setupAndStart net s)"
  using assms
proof (elim disjE exE conjE)
  fix e assume "getCategoryIds (random net) (categories_reply net) = Inl e"
  from setupAndStart_fetch_failed [OF this, of s] show ?thesis
    by (simp add: catch_error_fields showLoadingView_fields)
next
  fix ids i e
  assume "getCategoryIds (random net) (categories_reply net) = Inr ids"
    "i < length ids" "i \<in> set (completion net)"
    "getCategory (ids ! i) (category_reply net (ids ! i)) = Inl e"
  from setupAndStart_load_failed [OF this, of s] show ?thesis
    by (auto simp add: catch_error_fields showLoadingView_fields)
qed

text \<open>The successful run dismisses the indicator: its last step is \<^verbatim>\<open>hideLoadingView\<close>.\<close>

lemma setupAndStart_loaded_indicator:
  assumes "getCategoryIds (random net) (categories_reply net) = Inr ids"
    and "map (\<lambda>catId. getCategory catId (category_reply net catId)) ids = map Inr cats"
    and "{..<length ids} \<subseteq> set (completion net)"
  shows "\<not> loading_visible (setupAndStart net s) \<and> jeopardy_visible (setupAndStart net s)"
  by (simp add: setupAndStart_loaded [OF assms] hideLoadingView_def)

text \<open>
  C6. The code fails the claim at the loading indicator. When the category-list request
  is rejected on the freshly loaded page, \<^verbatim>\<open>setupAndStart\<close> raises the failure notice
  and leaves the board empty and hidden, as the claim says, but the loading indicator is
  still displayed. It is also still displayed after a failed restart, whether the list
  request or one detail request of the six is rejected, although the successful run
  before had dismissed it.
\<close>

theorem setupAndStart_failure_keeps_loading:
  "alerts (setupAndStart net_down initial_page) = [failure_notice] \<and>
   categories (setupAndStart net_down initial_page) = [] \<and>
   jeopardy (setupAndStart net_down initial_page) = empty_grid \<and>
   \<not> jeopardy_visible (setupAndStart net_down initial_page) \<and>
   loading_visible (setupAndStart net_down initial_page) \<and>
   \<not> loading_visible (setupAndStart net_ok initial_page) \<and>
   loading_visible (setupAndStart net_down (setupAndStart net_ok initial_page)) \<and>
   loading_visible (setupAndStart net_one_missing (setupAndStart net_ok initial_page))"
proof -
  have down: "(\<exists>e. getCategoryIds (random net_down) (categories_reply net_down) = Inl e) \<or>
     (\<exists>ids i e. getCategoryIds (random net_down) (categories_reply net_down) = Inr ids \<and>
        i < length ids \<and> i \<in> set (completion net_down) \<and>
        getCategory (ids ! i) (category_reply net_down (ids ! i)) = Inl e)"
    by (simp add: net_down_def net_ok_def getCategoryIds_def)
  have ids: "getCategoryIds (random net_one_missing) (categories_reply net_one_missing) =
      Inr [9, 5, 7, 1, 3, 4]"
    using ids_net_ok by (simp add: net_one_missing_def net_ok_def)
  have i: "2 < length [9, 5, 7, 1, 3, 4 :: nat]" "2 \<in> set (completion net_one_missing)"
    by (simp_all add: net_one_missing_def net_ok_def)
  have e: "getCategory ([9, 5, 7, 1, 3, 4] ! 2)
      (category_reply net_one_missing ([9, 5, 7, 1, 3, 4] ! 2)) = Inl (AxiosError 404)"
    by (simp add: net_one_missing_def net_ok_def getCategory_def)
  from ids i e
  have missing: "(\<exists>e. getCategoryIds (random net_one_missing) (categories_reply net_one_missing) = Inl e) \<or>
     (\<exists>ids i e. getCategoryIds (random net_one_missing) (categories_reply net_one_missing) = Inr ids \<and>
        i < length ids \<and> i \<in> set (completion net_one_missing) \<and>
        getCategory (ids ! i) (category_reply net_one_missing (ids ! i)) = Inl e)"
    by blast
  have six: "{..<length [9, 5, 7, 1, 3, 4 :: nat]} \<subseteq> set (completion net_ok)"
    by (auto simp add: net_ok_def lessThan_def less_Suc_eq numeral_eq_Suc)
  note first = setupAndStart_failure_state [OF down, of initial_page]
  note ok = setupAndStart_loaded_indicator [OF ids_net_ok loads_net_ok six, of initial_page]
  note again = setupAndStart_failure_state [OF down, of "setupAndStart net_ok initial_page"]
  note load = setupAndStart_failure_state [OF missing, of "setupAndStart net_ok initial_page"]
  have start: "alerts initial_page = []" "categories initial_page = []"
    "jeopardy initial_page = empty_grid"
    by (simp_all add: initial_page_def)
  from first ok again load start show ?thesis by simp
qed

section \<open>Properties of getCategoryIds\<close>

text \<open>Whatever the random values, the shuffle rearranges the array.\<close>

lemma mset_insert_random:
  "mset (fst (insert_random rnd n x ys)) = add_mset x (mset ys)"
proof (induction ys arbitrary: n)
  case Nil
  then show ?case by simp
next
  case (Cons y ys)
  obtain zs n' where ins: "insert_random rnd (Suc n) x ys = (zs, n')"
    by (cases "insert_random rnd (Suc n) x ys")
  with Cons.IH [of "Suc n"] have "mset zs = add_mset x (mset ys)" by simp
  with ins show ?case by simp
qed

lemma mset_sort_random_from:
  "mset (sort_random_from rnd n placed xs) = mset placed + mset xs"
proof (induction xs arbitrary: n placed)
  case Nil
  then show ?case by simp
next
  case (Cons x xs)
  obtain placed' n' where ins: "insert_random rnd n x placed = (placed', n')"
    by (cases "insert_random rnd n x placed")
  then have "mset placed' = add_mset x (mset placed)"
    using mset_insert_random [of rnd n x placed] by simp
  with Cons.IH [of n' placed'] ins show ?case by simp
qed

lemma mset_sort_random: "mset (sort_random rnd xs) = mset xs"
  by (simp add: sort_random_def mset_sort_random_from)

lemma length_sort_random: "length (sort_random rnd xs) = length xs"
  using mset_sort_random [of rnd xs] by (metis size_mset)

lemma set_sort_random: "set (sort_random rnd xs) = set xs"
  using mset_sort_random [of rnd xs] by (metis set_mset_mset)

lemma distinct_ids_sort_random:
  assumes "distinct (map cat_id xs)"
  shows "distinct (map cat_id (sort_random rnd xs))"
proof -
  have "mset (map cat_id (sort_random rnd xs)) = mset (map cat_id xs)"
    by (simp add: mset_sort_random)
  with assms show ?thesis by (metis mset_eq_imp_distinct_iff)
qed

lemma getCategoryIds_ok:
  assumes "status response = 200"
  shows "getCategoryIds rnd (Inr response) =
           Inr (map cat_id (take NUM_CATEGORIES (sort_random rnd (data response))))"
  using assms by (simp add: getCategoryIds_def)

text \<open>
  When the category-list call answers with status 200 and a pool of at least
  \<^verbatim>\<open>NUM_CATEGORIES\<close> entries with distinct ids, \<^verbatim>\<open>getCategoryIds\<close> returns exactly
  \<^verbatim>\<open>NUM_CATEGORIES\<close> identifiers, without duplicates, all of them ids of the pool,
  whatever the random values are. Of the sort the proof uses only that it rearranges
  the array. How likely each selection is depends on the values of \<^verbatim>\<open>Math.random()\<close>
  and on the order in which the engine's sort consults the comparator, neither of which
  the script fixes.
\<close>

lemma getCategoryIds_distinct:
  assumes "status response = 200"
    and "NUM_CATEGORIES \<le> length (data response)"
    and "distinct (map cat_id (data response))"
  shows "\<exists>ids. getCategoryIds rnd (Inr response) = Inr ids \<and>
     length ids = NUM_CATEGORIES \<and> distinct ids \<and>
     set ids \<subseteq> cat_id ` set (data response)"
proof -
  let ?sh = "sort_random rnd (data response)"
  let ?ids = "map cat_id (take NUM_CATEGORIES ?sh)"
  have sub: "set ?ids \<subseteq> cat_id ` set (data response)"
    using set_take_subset [of NUM_CATEGORIES ?sh] set_sort_random [of rnd "data response"]
    by auto
  have "distinct (take NUM_CATEGORIES (map cat_id ?sh))"
    using distinct_ids_sort_random [OF assms(3), of rnd] by (rule distinct_take)
  then have dist: "distinct ?ids" by (simp only: take_map)
  have len: "length ?ids = NUM_CATEGORIES"
    using assms(2) by (simp add: length_sort_random)
  from sub dist len getCategoryIds_ok [OF assms(1), of rnd] show ?thesis by blast
qed

end
